theory Spec2Isabelle
  imports Main "HOL-Library.Sublist" "HOL-Library.Multiset"
begin

section \<open>Python strings\<close>

text \<open>
  A Python \<open>str\<close> is modelled as a \<open>string\<close>: a list of \<open>char\<close>, one per code point,
  for code points below 256 (the Latin-1 range). On that range the functions below are
  Python's: \<open>str.isspace\<close> (which is also what \<open>\s\<close> of \<open>re\<close> and the no-argument
  \<open>str.split\<close> and \<open>str.strip\<close> use), \<open>str.lower\<close>, \<open>str.replace\<close>,
  \<open>str.startswith\<close>, \<open>str.endswith\<close> and the substring test \<open>in\<close>.
\<close>

definition ord :: "char \<Rightarrow> nat" where
  "ord c = of_char c"

definition isspace :: "char \<Rightarrow> bool" where
  "isspace c =
     (let n = ord c in (9 \<le> n \<and> n \<le> 13) \<or> (28 \<le> n \<and> n \<le> 32) \<or> n = 133 \<or> n = 160)"

definition lower_char :: "char \<Rightarrow> char" where
  "lower_char c =
     (let n = ord c in
      if (65 \<le> n \<and> n \<le> 90) \<or> (192 \<le> n \<and> n \<le> 222 \<and> n \<noteq> 215)
      then char_of (n + 32) else c)"

definition str_lower :: "string \<Rightarrow> string" where
  "str_lower s = map lower_char s"

definition startswith :: "string \<Rightarrow> string \<Rightarrow> bool" where
  "startswith s p = prefix p s"

definition endswith :: "string \<Rightarrow> string \<Rightarrow> bool" where
  "endswith s p = suffix p s"

text \<open>\<open>contains sub s\<close> is Python's \<open>sub in s\<close>.\<close>

definition contains :: "string \<Rightarrow> string \<Rightarrow> bool" where
  "contains sub s = sublist sub s"

text \<open>
  \<open>s.split()\<close>: the maximal runs of non-whitespace characters, in order. The first
  argument of \<open>split_from\<close> is the word read so far.
\<close>

fun split_from :: "string \<Rightarrow> string \<Rightarrow> string list" where
  "split_from w [] = (if w = [] then [] else [w])"
| "split_from w (c # cs) =
     (if isspace c then (if w = [] then split_from [] cs else w # split_from [] cs)
      else split_from (w @ [c]) cs)"

definition str_split :: "string \<Rightarrow> string list" where
  "str_split s = split_from [] s"

definition str_strip :: "string \<Rightarrow> string" where
  "str_strip s = rev (dropWhile isspace (rev (dropWhile isspace s)))"

text \<open>
  \<open>s.replace(old, new)\<close>: every occurrence of \<open>old\<close>, found from the left and not
  overlapping, becomes \<open>new\<close>. With an empty \<open>old\<close> Python puts \<open>new\<close> before every
  character and at the end.
\<close>

function str_replace :: "string \<Rightarrow> string \<Rightarrow> string \<Rightarrow> string" where
  "str_replace old new [] = (if old = [] then new else [])"
| "str_replace old new (c # cs) =
     (if old = [] then new @ c # str_replace old new cs
      else if prefix old (c # cs) then new @ str_replace old new (drop (length old) (c # cs))
      else c # str_replace old new cs)"
  by pat_completeness auto
termination
  by (relation "measure (\<lambda>(old, new, s). length s)") auto

text \<open>\<open>re.sub(r'\s+', ' ', text)\<close>: every maximal run of whitespace becomes one space.\<close>

function re_sub_whitespace :: "string \<Rightarrow> string" where
  "re_sub_whitespace [] = []"
| "re_sub_whitespace (c # cs) =
     (if isspace c then CHR '' '' # re_sub_whitespace (dropWhile isspace cs)
      else c # re_sub_whitespace cs)"
  by pat_completeness auto
termination
  by (relation "measure length") (auto simp: length_dropWhile_le less_Suc_eq_le)

definition is_ascii_alnum :: "char \<Rightarrow> bool" where
  "is_ascii_alnum c =
     (let n = ord c in (97 \<le> n \<and> n \<le> 122) \<or> (65 \<le> n \<and> n \<le> 90) \<or> (48 \<le> n \<and> n \<le> 57))"

text \<open>\<open>re.sub(r'[^a-zA-Z0-9]', '', s)\<close>: only the ASCII letters and digits stay.\<close>

definition re_sub_non_alnum :: "string \<Rightarrow> string" where
  "re_sub_non_alnum s = filter is_ascii_alnum s"

section \<open>The parsed sentence of the analysis engine\<close>

text \<open>
  spaCy's \<open>Doc\<close>, as far as the program reads it: the tokens (surface text, lemma, coarse
  part of speech, dependency label, and the index of the head token), the noun chunks
  (text and root token) and the texts of the named entities. The engine itself
  (\<open>self.nlp\<close>) and NLTK's \<open>sent_tokenize\<close> are library code: they are parameters of
  the model. \<open>nlp\<close> returns \<open>None\<close> where the engine raises, and the exception
  reaches the caller of the pipeline.
\<close>

record token =
  tok_text :: string
  tok_lemma :: string
  tok_pos :: string
  tok_dep :: string
  tok_head :: nat

record chunk =
  chunk_text :: string
  chunk_root :: token

record spacy_doc =
  tokens :: "token list"
  noun_chunks :: "chunk list"
  ents :: "string list"

text \<open>The head of a token is a token of the same \<open>Doc\<close>; an index outside it finds none.\<close>

definition token_at :: "spacy_doc \<Rightarrow> nat \<Rightarrow> token option" where
  "token_at d i = (if i < length (tokens d) then Some (tokens d ! i) else None)"

record feature =
  sentence :: string
  verbs :: "string list"
  action_verbs :: "string list"
  nouns :: "string list"
  entities :: "string list"
  svo_patterns :: "(string \<times> string \<times> string) list"
  modals :: "string list"
  doc :: spacy_doc

text \<open>A feature record after \<open>feature["req_score"] = score\<close>.\<close>

record candidate = feature +
  req_score :: int

record classified =
  requirement :: string
  stakeholder :: string
  req_type :: string
  categories :: "string list"

section \<open>Segmenter (\<open>preprocess_text\<close>)\<close>

definition preprocess_text :: "(string \<Rightarrow> string list) \<Rightarrow> string \<Rightarrow> string list" where
  "preprocess_text sent_tokenize text =
     (let text' = re_sub_whitespace text;
          sentences = sent_tokenize text'
      in filter (\<lambda>s. length (str_split s) > 5) sentences)"

section \<open>Feature extractor (\<open>extract_features\<close>)\<close>

definition action_verb_vocabulary :: "string list" where
  "action_verb_vocabulary =
     [''allow'', ''enable'', ''provide'', ''support'', ''manage'', ''monitor'', ''check'',
      ''view'', ''book'', ''pay'', ''receive'', ''create'', ''track'', ''generate'']"

definition modal_vocabulary :: "string list" where
  "modal_vocabulary = [''should'', ''must'', ''will'', ''can'', ''could'']"

definition svo_of_chunk :: "spacy_doc \<Rightarrow> chunk \<Rightarrow> (string \<times> string \<times> string) list" where
  "svo_of_chunk d ch =
     (case token_at d (tok_head (chunk_root ch)) of
        None \<Rightarrow> []
      | Some h \<Rightarrow>
          if tok_dep (chunk_root ch) = ''nsubj'' \<and> tok_pos h = ''VERB''
          then map (\<lambda>t. (chunk_text ch, tok_lemma h, tok_text t))
                 (filter (\<lambda>t. tok_head t = tok_head (chunk_root ch)
                              \<and> tok_dep t \<in> set [''dobj'', ''pobj''])
                    (tokens d))
          else [])"

definition features_of :: "string \<Rightarrow> spacy_doc \<Rightarrow> feature" where
  "features_of s d =
     (let vs = map tok_lemma (filter (\<lambda>t. tok_pos t = ''VERB'') (tokens d))
      in \<lparr> sentence = s,
           verbs = vs,
           action_verbs = filter (\<lambda>v. v \<in> set action_verb_vocabulary) vs,
           nouns = map tok_text (filter (\<lambda>t. tok_pos t = ''NOUN'') (tokens d)),
           entities = ents d,
           svo_patterns = concat (map (svo_of_chunk d) (noun_chunks d)),
           modals = map tok_text
                      (filter (\<lambda>t. tok_dep t = ''aux''
                                   \<and> str_lower (tok_text t) \<in> set modal_vocabulary)
                         (tokens d)),
           doc = d \<rparr>)"

fun extract_features :: "(string \<Rightarrow> spacy_doc option) \<Rightarrow> string list \<Rightarrow> feature list option" where
  "extract_features nlp [] = Some []"
| "extract_features nlp (s # sentences) =
     (case nlp s of
        None \<Rightarrow> None
      | Some d \<Rightarrow>
          (case extract_features nlp sentences of
             None \<Rightarrow> None
           | Some features \<Rightarrow> Some (features_of s d # features)))"

section \<open>Requirement scorer (\<open>identify_potential_requirements\<close>)\<close>

definition requirement_keywords :: "string list" where
  "requirement_keywords =
     [''need'', ''require'', ''must'', ''should'', ''allow'', ''enable'', ''access'', ''view'',
      ''book'', ''reserve'']"

definition system_components :: "string list" where
  "system_components =
     [''machine'', ''payment'', ''reservation'', ''notification'', ''camera'', ''account'',
      ''feedback'', ''review'']"

definition user_roles :: "string list" where
  "user_roles = [''customer'', ''client'', ''user'', ''administrator'', ''owner'']"

text \<open>The body of the loop: the value of \<open>score\<close> when the record is stored.\<close>

definition score_of :: "feature \<Rightarrow> int" where
  "score_of f =
     (let score0 = 0;
          score1 = (if action_verbs f \<noteq> [] then score0 + int (length (action_verbs f)) * 2
                    else score0);
          score2 = (if modals f \<noteq> [] then score1 + int (length (modals f)) * 3 else score1);
          score3 = (if svo_patterns f \<noteq> [] then score2 + int (length (svo_patterns f)) * 2
                    else score2);
          score4 = (if list_ex (\<lambda>keyword. contains keyword (str_lower (sentence f)))
                         requirement_keywords
                    then score3 + 3 else score3);
          score5 = (if list_ex (\<lambda>component. contains component (str_lower (sentence f)))
                         system_components
                    then score4 + 2 else score4);
          score6 = (if list_ex (\<lambda>role. contains role (str_lower (sentence f))) user_roles
                    then score5 + 2 else score5)
      in score6)"

definition set_req_score :: "feature \<Rightarrow> int \<Rightarrow> candidate" where
  "set_req_score f n =
     \<lparr> sentence = sentence f, verbs = verbs f, action_verbs = action_verbs f,
       nouns = nouns f, entities = entities f, svo_patterns = svo_patterns f,
       modals = modals f, doc = doc f, req_score = n \<rparr>"

text \<open>
  \<open>list.sort(key=..., reverse=True)\<close> is stable: records with equal scores keep their
  order. On integer keys that is the stable ascending sort by the negated key.
\<close>

definition identify_potential_requirements :: "feature list \<Rightarrow> candidate list" where
  "identify_potential_requirements features =
     (let potential_reqs = map (\<lambda>f. set_req_score f (score_of f)) features;
          sorted_reqs = sort_key (\<lambda>x. - req_score x) potential_reqs
      in filter (\<lambda>req. req_score req > 3) sorted_reqs)"

section \<open>Requirement formulator (\<open>formulate_requirements\<close>)\<close>

definition actors_of :: "spacy_doc \<Rightarrow> string list" where
  "actors_of d =
     map chunk_text (filter (\<lambda>ch. tok_dep (chunk_root ch) = ''nsubj'') (noun_chunks d))"

definition primary_actor_of :: "string list \<Rightarrow> string" where
  "primary_actor_of actors =
     (if list_ex (\<lambda>actor. str_lower actor \<in> set [''customer'', ''client'', ''user''])
           (filter (\<lambda>actor. actor \<noteq> []) actors)
      then ''The customer''
      else if list_ex (\<lambda>actor. str_lower actor \<in> set [''administrator'', ''admin'', ''owner''])
                (filter (\<lambda>actor. actor \<noteq> []) actors)
      then ''The administrator''
      else ''The system'')"

definition actions_of :: "candidate \<Rightarrow> string list" where
  "actions_of req = (if action_verbs req \<noteq> [] then action_verbs req else verbs req)"

definition action_of :: "candidate \<Rightarrow> string" where
  "action_of req = (case actions_of req of [] \<Rightarrow> ''support'' | a # _ \<Rightarrow> a)"

definition objects_of :: "spacy_doc \<Rightarrow> string list" where
  "objects_of d =
     map chunk_text
       (filter (\<lambda>ch. tok_dep (chunk_root ch) \<in> set [''dobj'', ''pobj'']) (noun_chunks d))"

text \<open>The value of \<open>requirement\<close> after the \<open>if\<close>/\<open>else\<close> that picks the template.\<close>

definition template_of :: "candidate \<Rightarrow> string" where
  "template_of req =
     (let actors = actors_of (doc req);
          primary_actor = primary_actor_of actors;
          actions = actions_of req;
          action = action_of req;
          objects = objects_of (doc req)
      in case objects of
           obj # _ \<Rightarrow>
             if actors \<noteq> [] \<and> actions \<noteq> []
             then primary_actor @ '' shall '' @ action @ '' '' @ obj
             else primary_actor @ '' shall '' @ action @ '' '' @ str_lower (sentence req)
         | [] \<Rightarrow> primary_actor @ '' shall '' @ action @ '' '' @ str_lower (sentence req))"

definition clean_up :: "string \<Rightarrow> string" where
  "clean_up r = str_strip (str_replace ''  '' '' '' r)"

text \<open>
  The last loop over the noun chunks; \<open>r\<close> is the variable \<open>requirement\<close>, which grows
  as the chunks are visited.
\<close>

fun add_context :: "chunk list \<Rightarrow> string \<Rightarrow> string" where
  "add_context [] r = r"
| "add_context (ch # chunks) r =
     add_context chunks
       (if tok_dep (chunk_root ch) \<in> set [''pobj''] \<and> \<not> contains (chunk_text ch) r
        then (if \<not> endswith r ''.'' then r @ '' for '' @ chunk_text ch else r)
        else r)"

definition formulate :: "candidate \<Rightarrow> string" where
  "formulate req = add_context (noun_chunks (doc req)) (clean_up (template_of req))"

definition formulate_requirements :: "candidate list \<Rightarrow> string list" where
  "formulate_requirements potential_reqs = map formulate potential_reqs"

section \<open>Refiner (\<open>refine_requirements\<close>)\<close>

definition simple_req_of :: "string \<Rightarrow> string" where
  "simple_req_of req = re_sub_non_alnum (str_lower req)"

text \<open>One turn of the first loop, on the pair of \<open>unique_reqs\<close> and \<open>seen\<close>.\<close>

definition dedup_step :: "string list \<times> string set \<Rightarrow> string \<Rightarrow> string list \<times> string set" where
  "dedup_step st req =
     (case st of (unique_reqs, seen) \<Rightarrow>
        if simple_req_of req \<notin> seen \<and> length (str_split req) > 4
        then (unique_reqs @ [req], insert (simple_req_of req) seen)
        else (unique_reqs, seen))"

definition unique_reqs_of :: "string list \<Rightarrow> string list" where
  "unique_reqs_of formulated_reqs = fst (foldl dedup_step ([], {}) formulated_reqs)"

definition standard_phrases :: "string list" where
  "standard_phrases = [''the system shall'', ''the customer should'', ''the administrator should'']"

definition add_lead :: "string \<Rightarrow> string" where
  "add_lead req =
     (if \<not> list_ex (\<lambda>p. startswith (str_lower req) p) standard_phrases
      then ''The system shall '' @ req else req)"

definition add_period :: "string \<Rightarrow> string" where
  "add_period req = (if \<not> endswith req ''.'' then req @ ''.'' else req)"

definition fix_common_issues :: "string \<Rightarrow> string" where
  "fix_common_issues req =
     str_replace '' shall shall '' '' shall ''
       (str_replace '' should should '' '' should ''
          (str_replace '' should be able to be able to '' '' should be able to '' req))"

text \<open>One turn of the second loop.\<close>

definition refine :: "string \<Rightarrow> string" where
  "refine req = fix_common_issues (add_period (add_lead req))"

definition refine_requirements :: "string list \<Rightarrow> string list" where
  "refine_requirements formulated_reqs = map refine (unique_reqs_of formulated_reqs)"

section \<open>Classifier (\<open>classify_requirements\<close>) and the two entry points\<close>

definition non_functional_keywords :: "string list" where
  "non_functional_keywords =
     [''performance'', ''security'', ''reliability'', ''usability'', ''maintainability'']"

text \<open>The dictionary \<open>category_keywords\<close>, in the order of its entries.\<close>

definition category_keywords :: "(string \<times> string list) list" where
  "category_keywords =
     [(''Washing/Drying'', [''machine'', ''washer'', ''dryer'', ''washing'', ''drying'']),
      (''Security'', [''security'', ''camera'', ''monitor'', ''surveillance'']),
      (''Scheduling'', [''schedule'', ''booking'', ''reservation'', ''book'', ''reserve'']),
      (''Payment'', [''payment'', ''pay'', ''coin'', ''card'', ''credit'', ''debit'']),
      (''Reporting'', [''report'', ''record'', ''track'', ''log'']),
      (''Communication'', [''communicate'', ''notification'', ''alert'', ''message'']),
      (''Feedback'', [''feedback'', ''review'', ''comment'', ''rating''])]"

definition stakeholder_of :: "string \<Rightarrow> string" where
  "stakeholder_of req =
     (if contains ''customer'' (str_lower req) \<or> contains ''client'' (str_lower req)
         \<or> contains ''user'' (str_lower req)
      then ''Customer''
      else if contains ''administrator'' (str_lower req) \<or> contains ''admin'' (str_lower req)
              \<or> contains ''owner'' (str_lower req)
      then ''Administrator''
      else ''System'')"

definition req_type_of :: "string \<Rightarrow> string" where
  "req_type_of req =
     (if list_ex (\<lambda>keyword. contains keyword (str_lower req)) non_functional_keywords
      then ''Non-functional'' else ''Functional'')"

definition categories_of :: "string \<Rightarrow> string list" where
  "categories_of req =
     (let cats = map fst
                   (filter (\<lambda>(category, keywords).
                              list_ex (\<lambda>keyword. contains keyword (str_lower req)) keywords)
                      category_keywords)
      in if cats = [] then [''General''] else cats)"

definition classify :: "string \<Rightarrow> classified" where
  "classify req =
     \<lparr> requirement = req, stakeholder = stakeholder_of req, req_type = req_type_of req,
       categories = categories_of req \<rparr>"

fun classify_requirements :: "(string \<Rightarrow> spacy_doc option) \<Rightarrow> string list \<Rightarrow> classified list option" where
  "classify_requirements nlp [] = Some []"
| "classify_requirements nlp (req # refined_reqs) =
     (case nlp req of
        None \<Rightarrow> None
      | Some d \<Rightarrow>
          (case classify_requirements nlp refined_reqs of
             None \<Rightarrow> None
           | Some classifications \<Rightarrow> Some (classify req # classifications)))"

definition extract_requirements ::
  "(string \<Rightarrow> spacy_doc option) \<Rightarrow> (string \<Rightarrow> string list) \<Rightarrow> string \<Rightarrow> classified list option" where
  "extract_requirements nlp sent_tokenize system_description =
     (let sentences = preprocess_text sent_tokenize system_description
      in case extract_features nlp sentences of
           None \<Rightarrow> None
         | Some features \<Rightarrow>
             (let potential_reqs = identify_potential_requirements features;
                  formulated_reqs = formulate_requirements potential_reqs;
                  refined_reqs = refine_requirements formulated_reqs
              in classify_requirements nlp refined_reqs))"

definition extract_and_format ::
  "(string \<Rightarrow> spacy_doc option) \<Rightarrow> (string \<Rightarrow> string list) \<Rightarrow> string \<Rightarrow> string list option" where
  "extract_and_format nlp sent_tokenize system_description =
     (case extract_requirements nlp sent_tokenize system_description of
        None \<Rightarrow> None
      | Some classified_reqs \<Rightarrow>
          (let customer_reqs = filter (\<lambda>req. stakeholder req = ''Customer'') classified_reqs;
               admin_reqs = filter (\<lambda>req. stakeholder req = ''Administrator'') classified_reqs;
               system_reqs = filter (\<lambda>req. stakeholder req = ''System'') classified_reqs
           in Some (map requirement customer_reqs @ map requirement admin_reqs
                    @ map requirement system_reqs)))"

section \<open>Sample inputs\<close>

text \<open>An analysis result with no tokens, no noun chunks and no entities.\<close>

definition blank_doc :: spacy_doc where
  "blank_doc = \<lparr> tokens = [], noun_chunks = [], ents = [] \<rparr>"

definition sample_feature_a :: feature where
  "sample_feature_a =
     \<lparr> sentence = ''The customer must book a washing machine now'',
       verbs = [''book''], action_verbs = [''book''], nouns = [''customer'', ''machine''],
       entities = [], svo_patterns = [], modals = [''must''], doc = blank_doc \<rparr>"

definition sample_feature_b :: feature where
  "sample_feature_b =
     \<lparr> sentence = ''It rains often in the spring here'',
       verbs = [''rain''], action_verbs = [], nouns = [''spring''],
       entities = [], svo_patterns = [], modals = [], doc = blank_doc \<rparr>"

definition sample_sent_tokenize :: "string \<Rightarrow> string list" where
  "sample_sent_tokenize text =
     [''The administrator must monitor the payment system now.'',
      ''The customer should book a washing machine today.'']"

text \<open>
  Two parsed sentences. In the first the only verb form is \<open>is\<close>, which the engine
  tags as an auxiliary, so the record has no verb; the second has a bare \<open>Customer\<close>
  as subject, a direct object and a prepositional object.
\<close>

definition sample_doc_c :: spacy_doc where
  "sample_doc_c =
     \<lparr> tokens =
         [\<lparr> tok_text = ''The'', tok_lemma = ''the'', tok_pos = ''DET'', tok_dep = ''det'', tok_head = 1 \<rparr>,
          \<lparr> tok_text = ''machine'', tok_lemma = ''machine'', tok_pos = ''NOUN'', tok_dep = ''nsubj'', tok_head = 2 \<rparr>,
          \<lparr> tok_text = ''is'', tok_lemma = ''be'', tok_pos = ''AUX'', tok_dep = ''ROOT'', tok_head = 2 \<rparr>,
          \<lparr> tok_text = ''a'', tok_lemma = ''a'', tok_pos = ''DET'', tok_dep = ''det'', tok_head = 4 \<rparr>,
          \<lparr> tok_text = ''washer'', tok_lemma = ''washer'', tok_pos = ''NOUN'', tok_dep = ''attr'', tok_head = 2 \<rparr>,
          \<lparr> tok_text = ''for'', tok_lemma = ''for'', tok_pos = ''ADP'', tok_dep = ''prep'', tok_head = 4 \<rparr>,
          \<lparr> tok_text = ''the'', tok_lemma = ''the'', tok_pos = ''DET'', tok_dep = ''det'', tok_head = 7 \<rparr>,
          \<lparr> tok_text = ''customer'', tok_lemma = ''customer'', tok_pos = ''NOUN'', tok_dep = ''pobj'', tok_head = 5 \<rparr>,
          \<lparr> tok_text = ''today'', tok_lemma = ''today'', tok_pos = ''NOUN'', tok_dep = ''npadvmod'', tok_head = 2 \<rparr>],
       noun_chunks =
         [\<lparr> chunk_text = ''The machine'',
            chunk_root = \<lparr> tok_text = ''machine'', tok_lemma = ''machine'', tok_pos = ''NOUN'', tok_dep = ''nsubj'', tok_head = 2 \<rparr> \<rparr>,
          \<lparr> chunk_text = ''a washer'',
            chunk_root = \<lparr> tok_text = ''washer'', tok_lemma = ''washer'', tok_pos = ''NOUN'', tok_dep = ''attr'', tok_head = 2 \<rparr> \<rparr>,
          \<lparr> chunk_text = ''the customer'',
            chunk_root = \<lparr> tok_text = ''customer'', tok_lemma = ''customer'', tok_pos = ''NOUN'', tok_dep = ''pobj'', tok_head = 5 \<rparr> \<rparr>],
       ents = [] \<rparr>"

definition sample_candidate_c :: candidate where
  "sample_candidate_c =
     set_req_score (features_of ''The machine is a washer for the customer today'' sample_doc_c) 4"

definition sample_doc_d :: spacy_doc where
  "sample_doc_d =
     \<lparr> tokens =
         [\<lparr> tok_text = ''Customer'', tok_lemma = ''customer'', tok_pos = ''NOUN'', tok_dep = ''nsubj'', tok_head = 2 \<rparr>,
          \<lparr> tok_text = ''must'', tok_lemma = ''must'', tok_pos = ''AUX'', tok_dep = ''aux'', tok_head = 2 \<rparr>,
          \<lparr> tok_text = ''book'', tok_lemma = ''book'', tok_pos = ''VERB'', tok_dep = ''ROOT'', tok_head = 2 \<rparr>,
          \<lparr> tok_text = ''a'', tok_lemma = ''a'', tok_pos = ''DET'', tok_dep = ''det'', tok_head = 4 \<rparr>,
          \<lparr> tok_text = ''machine'', tok_lemma = ''machine'', tok_pos = ''NOUN'', tok_dep = ''dobj'', tok_head = 2 \<rparr>,
          \<lparr> tok_text = ''through'', tok_lemma = ''through'', tok_pos = ''ADP'', tok_dep = ''prep'', tok_head = 2 \<rparr>,
          \<lparr> tok_text = ''the'', tok_lemma = ''the'', tok_pos = ''DET'', tok_dep = ''det'', tok_head = 7 \<rparr>,
          \<lparr> tok_text = ''app'', tok_lemma = ''app'', tok_pos = ''NOUN'', tok_dep = ''pobj'', tok_head = 5 \<rparr>],
       noun_chunks =
         [\<lparr> chunk_text = ''Customer'',
            chunk_root = \<lparr> tok_text = ''Customer'', tok_lemma = ''customer'', tok_pos = ''NOUN'', tok_dep = ''nsubj'', tok_head = 2 \<rparr> \<rparr>,
          \<lparr> chunk_text = ''a machine'',
            chunk_root = \<lparr> tok_text = ''machine'', tok_lemma = ''machine'', tok_pos = ''NOUN'', tok_dep = ''dobj'', tok_head = 2 \<rparr> \<rparr>,
          \<lparr> chunk_text = ''the app'',
            chunk_root = \<lparr> tok_text = ''app'', tok_lemma = ''app'', tok_pos = ''NOUN'', tok_dep = ''pobj'', tok_head = 5 \<rparr> \<rparr>],
       ents = [] \<rparr>"

definition sample_candidate_d :: candidate where
  "sample_candidate_d =
     set_req_score (features_of ''Customer must book a machine through the app'' sample_doc_d) 14"

section \<open>The score as the specification words it\<close>

text \<open>
  The score of a record as the specification gives it: a sum of weighted counts and of
  three keyword bonuses. It is compared below with \<open>score_of\<close>, which follows the code.
\<close>

definition claimed_score :: "feature \<Rightarrow> int" where
  "claimed_score f =
     2 * int (length (action_verbs f)) + 3 * int (length (modals f))
     + 2 * int (length (svo_patterns f))
     + (if \<exists>keyword\<in>set [''need'', ''require'', ''must'', ''should'', ''allow'', ''enable'',
                             ''access'', ''view'', ''book'', ''reserve''].
             contains keyword (str_lower (sentence f)) then 3 else 0)
     + (if \<exists>keyword\<in>set [''machine'', ''payment'', ''reservation'', ''notification'',
                             ''camera'', ''account'', ''feedback'', ''review''].
             contains keyword (str_lower (sentence f)) then 2 else 0)
     + (if \<exists>keyword\<in>set [''customer'', ''client'', ''user'', ''administrator'', ''owner''].
             contains keyword (str_lower (sentence f)) then 2 else 0)"

section \<open>A check for prefixes that a replacement keeps\<close>

text \<open>
  \<open>prefix_guard old n p\<close> holds when, at every position of \<open>p\<close>, either the rest of
  \<open>p\<close> is at most \<open>n\<close> characters long, or \<open>old\<close> cannot occur there (the rest of
  \<open>p\<close> and \<open>old\<close> differ at some position that both have). It is used with
  \<open>n\<close> the length of a replacement text that is a prefix of \<open>old\<close>.
\<close>

fun prefix_guard :: "string \<Rightarrow> nat \<Rightarrow> string \<Rightarrow> bool" where
  "prefix_guard old n [] = True"
| "prefix_guard old n (x # p) =
     ((length (x # p) \<le> n \<or> \<not> (prefix old (x # p) \<or> prefix (x # p) old))
      \<and> prefix_guard old n p)"

section \<open>Classifier: what it keeps and what it adds\<close>

lemma classify_requirements_Some:
  "classify_requirements nlp rs = Some out \<Longrightarrow> out = map classify rs"
  by (induction rs arbitrary: out) (auto split: option.splits)

lemma classify_requirements_None:
  "classify_requirements nlp rs = None \<longleftrightarrow> (\<exists>r\<in>set rs. nlp r = None)"
  by (induction rs) (auto split: option.splits)


text \<open>
  Claim C10. When the engine answers for every refined requirement, the classifier returns
  one record per input string, in the same order, and the \<open>requirement\<close> field of the
  record at index \<open>i\<close> is the input string at index \<open>i\<close>, unchanged. It returns nothing
  exactly when the engine fails on one of the strings.
\<close>

theorem classify_requirements_keeps_texts:
  "(classify_requirements nlp refined_reqs \<noteq> None \<longleftrightarrow> (\<forall>req\<in>set refined_reqs. nlp req \<noteq> None))
   \<and> (\<forall>out. classify_requirements nlp refined_reqs = Some out \<longrightarrow>
          length out = length refined_reqs
          \<and> (\<forall>i<length refined_reqs. requirement (out ! i) = refined_reqs ! i))"
proof -
  have "classify_requirements nlp refined_reqs \<noteq> None \<longleftrightarrow> (\<forall>req\<in>set refined_reqs. nlp req \<noteq> None)"
    by (simp add: classify_requirements_None)
  moreover have "length out = length refined_reqs
          \<and> (\<forall>i<length refined_reqs. requirement (out ! i) = refined_reqs ! i)"
    if "classify_requirements nlp refined_reqs = Some out" for out
    using classify_requirements_Some [OF that] by (simp add: classify_def)
  ultimately show ?thesis by blast
qed

theorem classify_requirements_keeps_texts_witness:
  "\<exists>out. classify_requirements (\<lambda>s. Some blank_doc)
            [''The system shall track usage.'', ''The system shall The customer shall pay.''] = Some out
     \<and> length out = 2
     \<and> requirement (out ! 0) = ''The system shall track usage.''
     \<and> requirement (out ! 1) = ''The system shall The customer shall pay.''"
  using classify_requirements_keeps_texts
          [of "\<lambda>s. Some blank_doc"
              "[''The system shall track usage.'', ''The system shall The customer shall pay.'']"]
  by (auto simp: nth_Cons')


lemma General_not_category: "''General'' \<notin> fst ` set category_keywords"
  by (simp add: category_keywords_def)

lemma categories_of_General:
  "categories_of req = [''General''] \<longleftrightarrow>
     \<not> list_ex (\<lambda>(category, keywords). list_ex (\<lambda>keyword. contains keyword (str_lower req)) keywords)
          category_keywords"
proof -
  let ?P = "\<lambda>(category :: string, keywords). list_ex (\<lambda>keyword. contains keyword (str_lower req)) keywords"
  let ?cats = "map fst (filter ?P category_keywords)"
  have "set ?cats \<subseteq> fst ` set category_keywords" by auto
  then have "''General'' \<notin> set ?cats" using General_not_category by blast
  then have "?cats \<noteq> [''General'']" by (metis list.set_intros(1))
  moreover have "?cats = [] \<longleftrightarrow> \<not> list_ex ?P category_keywords"
    by (simp add: filter_empty_conv list_ex_iff)
  ultimately show ?thesis
    unfolding categories_of_def Let_def by (simp only: split: if_splits) blast
qed

lemma categories_of_order:
  "categories_of req = [''General''] \<or> subseq (categories_of req) (map fst category_keywords)"
  unfolding categories_of_def Let_def by (simp add: subseq_map)

lemma categories_of_member:
  "list_ex (\<lambda>(category, keywords). list_ex (\<lambda>keyword. contains keyword (str_lower req)) keywords)
          category_keywords \<Longrightarrow>
   set (categories_of req) =
     {category. \<exists>keywords. (category, keywords) \<in> set category_keywords
        \<and> list_ex (\<lambda>keyword. contains keyword (str_lower req)) keywords}"
  unfolding categories_of_def Let_def
  by (auto simp: filter_empty_conv list_ex_iff image_iff) blast+


text \<open>
  Claim C7. For the record at index \<open>i\<close> of the classifier's output: the stakeholder is
  Customer when the lowercased text contains customer, client or user, otherwise
  Administrator when it contains administrator, admin or owner, otherwise System; the
  type is Non-functional exactly when it contains one of the five quality keywords, and
  Functional otherwise; the category list is not empty, follows the order of the
  taxonomy, holds every category one of whose keywords occurs, and is the single entry
  General exactly when no keyword of the taxonomy occurs.
\<close>

theorem classify_requirements_tags:
  assumes "classify_requirements nlp refined_reqs = Some out" and "i < length refined_reqs"
  shows "(let c = out ! i; low = str_lower (refined_reqs ! i);
              matched = (\<lambda>keywords. \<exists>keyword\<in>set keywords. contains keyword low)
          in stakeholder c =
               (if contains ''customer'' low \<or> contains ''client'' low \<or> contains ''user'' low
                then ''Customer''
                else if contains ''administrator'' low \<or> contains ''admin'' low
                        \<or> contains ''owner'' low
                then ''Administrator'' else ''System'')
             \<and> req_type c =
               (if matched [''performance'', ''security'', ''reliability'', ''usability'',
                            ''maintainability'']
                then ''Non-functional'' else ''Functional'')
             \<and> categories c \<noteq> []
             \<and> (categories c = [''General'']
                  \<or> subseq (categories c)
                       [''Washing/Drying'', ''Security'', ''Scheduling'', ''Payment'',
                        ''Reporting'', ''Communication'', ''Feedback''])
             \<and> (categories c = [''General'']
                  \<longleftrightarrow> \<not> (\<exists>(category, keywords)\<in>set category_keywords. matched keywords))
             \<and> (\<forall>(category, keywords)\<in>set category_keywords.
                   matched keywords \<longrightarrow> category \<in> set (categories c)))"
proof -
  have c: "out ! i = classify (refined_reqs ! i)"
    using classify_requirements_Some [OF assms(1)] assms(2) by simp
  let ?req = "refined_reqs ! i"
  have ne: "categories_of ?req \<noteq> []"
    by (simp add: categories_of_def Let_def)
  have ord': "categories_of ?req = [''General'']
      \<or> subseq (categories_of ?req)
           [''Washing/Drying'', ''Security'', ''Scheduling'', ''Payment'',
            ''Reporting'', ''Communication'', ''Feedback'']"
    using categories_of_order [of ?req] by (simp add: category_keywords_def)
  have gen: "categories_of ?req = [''General'']
      \<longleftrightarrow> \<not> (\<exists>(category, keywords)\<in>set category_keywords.
               \<exists>keyword\<in>set keywords. contains keyword (str_lower ?req))"
    by (simp add: categories_of_General list_ex_iff case_prod_unfold)
  have mem: "\<forall>(category, keywords)\<in>set category_keywords.
      (\<exists>keyword\<in>set keywords. contains keyword (str_lower ?req))
        \<longrightarrow> category \<in> set (categories_of ?req)"
  proof (clarify)
    fix category kws keyword
    assume h: "(category, kws) \<in> set category_keywords" "keyword \<in> set kws"
      "contains keyword (str_lower ?req)"
    then have "list_ex (\<lambda>(category, ks). list_ex (\<lambda>keyword. contains keyword (str_lower ?req)) ks)
          category_keywords"
      by (auto simp: list_ex_iff)
    from categories_of_member [OF this] h show "category \<in> set (categories_of ?req)"
      by (auto simp: list_ex_iff)
  qed
  show ?thesis
    unfolding Let_def c
    using ne ord' gen mem
    by (simp add: classify_def stakeholder_of_def req_type_of_def non_functional_keywords_def
          list_ex_iff)
qed

theorem classify_requirements_tags_witness:
  "\<exists>out. classify_requirements (\<lambda>s. Some blank_doc)
            [''The system shall The customer shall book a washing machine.''] = Some out
     \<and> stakeholder (out ! 0) = ''Customer''
     \<and> req_type (out ! 0) = ''Functional''
     \<and> categories (out ! 0) \<noteq> []"
proof -
  let ?r = "''The system shall The customer shall book a washing machine.''"
  have run: "classify_requirements (\<lambda>s. Some blank_doc) [?r] = Some [classify ?r]"
    by simp
  have k: "contains ''customer'' (str_lower ?r)"
    by code_simp
  have n: "\<not> (\<exists>keyword\<in>set [''performance'', ''security'', ''reliability'', ''usability'',
                            ''maintainability'']. contains keyword (str_lower ?r))"
    by code_simp
  show ?thesis
    using classify_requirements_tags [OF run, of 0] k n
    by (simp add: Let_def)
qed

lemma stakeholder_of_cases:
  "stakeholder_of req = ''Customer'' \<or> stakeholder_of req = ''Administrator''
     \<or> stakeholder_of req = ''System''"
  by (simp add: stakeholder_of_def)

lemma mset_three_groups:
  "\<forall>c\<in>set cs. stakeholder c = ''Customer'' \<or> stakeholder c = ''Administrator''
      \<or> stakeholder c = ''System'' \<Longrightarrow>
   mset (filter (\<lambda>req. stakeholder req = ''Customer'') cs)
     + mset (filter (\<lambda>req. stakeholder req = ''Administrator'') cs)
     + mset (filter (\<lambda>req. stakeholder req = ''System'') cs) = mset cs"
  by (induction cs) auto

section \<open>The two entry points\<close>

lemma sample_run:
  "extract_requirements (\<lambda>s. Some blank_doc) sample_sent_tokenize ''anything''
   = Some [\<lparr> requirement = ''The system shall support the administrator must monitor the payment system now.'',
             stakeholder = ''Administrator'', req_type = ''Functional'',
             categories = [''Security'', ''Payment''] \<rparr>,
           \<lparr> requirement = ''The system shall support the customer should book a washing machine today.'',
             stakeholder = ''Customer'', req_type = ''Functional'',
             categories = [''Washing/Drying'', ''Scheduling''] \<rparr>]"
  by code_simp

text \<open>
  Claim C6. The texts returned by \<open>extract_and_format\<close> are the texts of the records
  returned by \<open>extract_requirements\<close> on the same description, regrouped: those
  classified Customer, then Administrator, then System, each group in the order of
  \<open>extract_requirements\<close>; the result is a permutation of all the texts, since every
  record has one of the three stakeholders. When \<open>extract_requirements\<close> fails, so
  does \<open>extract_and_format\<close>.
\<close>

theorem extract_and_format_regroups:
  "(case extract_requirements nlp sent_tokenize description of
      None \<Rightarrow> extract_and_format nlp sent_tokenize description = None
    | Some classified_reqs \<Rightarrow>
        (\<exists>customer_texts admin_texts system_texts.
           extract_and_format nlp sent_tokenize description
             = Some (customer_texts @ admin_texts @ system_texts)
           \<and> customer_texts
               = map requirement (filter (\<lambda>c. stakeholder c = ''Customer'') classified_reqs)
           \<and> admin_texts
               = map requirement (filter (\<lambda>c. stakeholder c = ''Administrator'') classified_reqs)
           \<and> system_texts
               = map requirement (filter (\<lambda>c. stakeholder c = ''System'') classified_reqs)
           \<and> mset (customer_texts @ admin_texts @ system_texts)
               = mset (map requirement classified_reqs)
           \<and> (\<forall>c\<in>set classified_reqs.
                 stakeholder c = ''Customer'' \<or> stakeholder c = ''Administrator''
                 \<or> stakeholder c = ''System'')))"
proof (cases "extract_requirements nlp sent_tokenize description")
  case None
  then show ?thesis by (simp add: extract_and_format_def)
next
  case (Some cs)
  then obtain rs where "classify_requirements nlp rs = Some cs"
    by (auto simp: extract_requirements_def Let_def split: option.splits)
  then have "cs = map classify rs" by (rule classify_requirements_Some)
  then have three: "\<forall>c\<in>set cs. stakeholder c = ''Customer'' \<or> stakeholder c = ''Administrator''
      \<or> stakeholder c = ''System''"
    using stakeholder_of_cases by (auto simp: classify_def)
  have "mset (map requirement (filter (\<lambda>c. stakeholder c = ''Customer'') cs)
          @ map requirement (filter (\<lambda>c. stakeholder c = ''Administrator'') cs)
          @ map requirement (filter (\<lambda>c. stakeholder c = ''System'') cs))
        = image_mset requirement
            (mset (filter (\<lambda>req. stakeholder req = ''Customer'') cs)
             + mset (filter (\<lambda>req. stakeholder req = ''Administrator'') cs)
             + mset (filter (\<lambda>req. stakeholder req = ''System'') cs))"
    by (simp only: mset_append mset_map image_mset_union add.assoc)
  also have "\<dots> = mset (map requirement cs)"
    by (simp only: mset_three_groups [OF three] mset_map)
  finally have perm: "mset (map requirement (filter (\<lambda>c. stakeholder c = ''Customer'') cs)
          @ map requirement (filter (\<lambda>c. stakeholder c = ''Administrator'') cs)
          @ map requirement (filter (\<lambda>c. stakeholder c = ''System'') cs))
        = mset (map requirement cs)" .
  show ?thesis
    using Some three perm by (simp add: extract_and_format_def Let_def)
qed

theorem extract_and_format_regroups_witness:
  "extract_and_format (\<lambda>s. Some blank_doc) sample_sent_tokenize ''anything''
   = Some [''The system shall support the customer should book a washing machine today.'',
           ''The system shall support the administrator must monitor the payment system now.'']"
  using extract_and_format_regroups
          [of "\<lambda>s. Some blank_doc" sample_sent_tokenize "''anything''"]
  unfolding sample_run
  by simp

section \<open>Degenerate descriptions\<close>

lemma all_space_split_from: "\<forall>c\<in>set s. isspace c \<Longrightarrow> split_from [] s = []"
  by (induction s) auto

lemma isspace_space: "isspace CHR '' ''"
  by (simp add: isspace_def ord_def)

lemma re_sub_whitespace_space:
  assumes "\<forall>c\<in>set s. isspace c"
  shows "\<forall>c\<in>set (re_sub_whitespace s). isspace c"
proof (cases s)
  case Nil
  then show ?thesis by simp
next
  case (Cons c cs)
  from assms Cons have c: "isspace c"
    by simp
  from assms Cons have d: "dropWhile isspace cs = []"
    by (simp add: dropWhile_eq_Nil_conv)
  have "re_sub_whitespace s = '' ''"
    unfolding Cons by (simp add: c d)
  then show ?thesis by (simp add: isspace_space)
qed

text \<open>
  Claim C9. For a description made of whitespace only (the empty one included), and a
  sentence tokenizer whose sentences are contiguous spans of its input, the segmenter
  returns no sentence and \<open>extract_requirements\<close> returns the empty list; the engine
  is not called, so the result does not depend on it.
\<close>

theorem empty_description:
  assumes "\<forall>c\<in>set description. isspace c"
    and "\<forall>text. \<forall>s\<in>set (sent_tokenize text). sublist s text"
  shows "preprocess_text sent_tokenize description = []
     \<and> extract_requirements nlp sent_tokenize description = Some []"
proof -
  have "str_split s = []" if "s \<in> set (sent_tokenize (re_sub_whitespace description))" for s
  proof -
    have "sublist s (re_sub_whitespace description)" using assms(2) that by blast
    then have "set s \<subseteq> set (re_sub_whitespace description)" by (rule set_mono_sublist)
    then have "\<forall>c\<in>set s. isspace c"
      using re_sub_whitespace_space [OF assms(1)] by blast
    then show ?thesis by (simp add: str_split_def all_space_split_from)
  qed
  then have seg: "preprocess_text sent_tokenize description = []"
    by (simp add: preprocess_text_def Let_def filter_empty_conv)
  have "identify_potential_requirements [] = []"
    by (simp add: identify_potential_requirements_def)
  then have "extract_requirements nlp sent_tokenize description = Some []"
    by (simp add: extract_requirements_def seg formulate_requirements_def
          refine_requirements_def unique_reqs_of_def)
  with seg show ?thesis by simp
qed

theorem empty_description_witness:
  "preprocess_text (\<lambda>t. [t]) [CHR '' '', CHR 0x09, CHR 0x0A] = []
     \<and> extract_requirements (\<lambda>s. None) (\<lambda>t. [t]) [CHR '' '', CHR 0x09, CHR 0x0A] = Some []"
proof -
  have a: "\<forall>c\<in>set [CHR '' '', CHR 0x09, CHR 0x0A]. isspace c"
    by (simp add: isspace_def ord_def)
  have b: "\<forall>text. \<forall>s\<in>set ((\<lambda>t. [t]) text). sublist s text"
    by simp
  show ?thesis by (rule empty_description [OF a b])
qed

section \<open>Scorer: scores, threshold and order\<close>

lemma score_of_claimed: "score_of f = claimed_score f"
  unfolding score_of_def claimed_score_def Let_def list_ex_iff
    requirement_keywords_def system_components_def user_roles_def
  by simp

lemma req_score_set_req_score: "req_score (set_req_score f n) = n"
  by (simp add: set_req_score_def)

text \<open>
  Claim C1. Every record of the scorer's output carries the score
  \<open>2 * |action_verbs| + 3 * |modals| + 2 * |svo_patterns|\<close> plus 3, 2 and 2 for a
  requirement keyword, a system-component keyword and a role keyword in the lowercased
  sentence. The output is sorted by descending score, and for every score \<open>k\<close> the
  output records with score \<open>k\<close> are the input records with score \<open>k\<close>, in input
  order, when \<open>k > 3\<close>, and none otherwise.
\<close>

theorem identify_potential_requirements_ranked:
  "sorted_wrt (\<lambda>a b. req_score a \<ge> req_score b) (identify_potential_requirements features)
   \<and> (\<forall>k. filter (\<lambda>c. req_score c = k) (identify_potential_requirements features)
          = (if k > 3
             then map (\<lambda>f. set_req_score f k) (filter (\<lambda>f. claimed_score f = k) features)
             else []))"
proof -
  let ?g = "\<lambda>f. set_req_score f (score_of f)"
  let ?key = "\<lambda>x :: candidate. - req_score x"
  let ?xs = "map ?g features"
  have out: "identify_potential_requirements features
      = filter (\<lambda>req. req_score req > 3) (sort_key ?key ?xs)"
    by (simp add: identify_potential_requirements_def Let_def)
  have "sorted (map ?key (sort_key ?key ?xs))"
    by (rule sorted_sort_key)
  then have "sorted_wrt (\<lambda>a b. ?key a \<le> ?key b) (sort_key ?key ?xs)"
    by (simp only: sorted_map)
  then have "sorted_wrt (\<lambda>a b. req_score a \<ge> req_score b) (sort_key ?key ?xs)"
    by simp
  then have srt: "sorted_wrt (\<lambda>a b. req_score a \<ge> req_score b)
      (identify_potential_requirements features)"
    unfolding out by (rule sorted_wrt_filter)
  have stab: "filter (\<lambda>c. req_score c = k) (identify_potential_requirements features)
          = (if k > 3
             then map (\<lambda>f. set_req_score f k) (filter (\<lambda>f. claimed_score f = k) features)
             else [])" for k
  proof -
    have "filter (\<lambda>c. req_score c = k) (identify_potential_requirements features)
        = filter (\<lambda>req. req_score req > 3) (filter (\<lambda>c. ?key c = - k) (sort_key ?key ?xs))"
      unfolding out by (simp add: conj_commute)
    also have "\<dots> = filter (\<lambda>req. req_score req > 3) (filter (\<lambda>c. ?key c = - k) ?xs)"
      by (simp only: sort_key_stable)
    also have "\<dots> = map ?g (filter (\<lambda>f. claimed_score f = k \<and> k > 3) features)"
      by (simp add: filter_map o_def req_score_set_req_score score_of_claimed conj_commute
            cong: conj_cong)
    also have "\<dots> = (if k > 3
             then map (\<lambda>f. set_req_score f k) (filter (\<lambda>f. claimed_score f = k) features)
             else [])"
      by (simp add: score_of_claimed cong: map_cong)
    finally show ?thesis .
  qed
  from srt stab show ?thesis by blast
qed

theorem identify_potential_requirements_ranked_witness:
  "filter (\<lambda>c. req_score c = 12)
     (identify_potential_requirements [sample_feature_b, sample_feature_a])
   = [set_req_score sample_feature_a 12]
   \<and> filter (\<lambda>c. req_score c = 0)
     (identify_potential_requirements [sample_feature_b, sample_feature_a]) = []"
proof -
  have a: "claimed_score sample_feature_a = 12"
    by code_simp
  have b: "claimed_score sample_feature_b = 0"
    by code_simp
  have r: "\<forall>k. filter (\<lambda>c. req_score c = k)
       (identify_potential_requirements [sample_feature_b, sample_feature_a])
     = (if k > 3
        then map (\<lambda>f. set_req_score f k)
               (filter (\<lambda>f. claimed_score f = k) [sample_feature_b, sample_feature_a])
        else [])"
    using identify_potential_requirements_ranked [of "[sample_feature_b, sample_feature_a]"]
    by (rule conjunct2)
  from r [rule_format, of 12] r [rule_format, of 0] a b show ?thesis
    by simp
qed

section \<open>Facts about the string functions\<close>

lemma str_lower_append: "str_lower (a @ b) = str_lower a @ str_lower b"
  by (simp add: str_lower_def)

lemma str_replace_match:
  "old \<noteq> [] \<Longrightarrow> prefix old s
     \<Longrightarrow> str_replace old new s = new @ str_replace old new (drop (length old) s)"
  by (cases s) simp_all

lemma str_replace_skip:
  "old \<noteq> [] \<Longrightarrow> \<not> prefix old (c # cs)
     \<Longrightarrow> str_replace old new (c # cs) = c # str_replace old new cs"
  by simp

lemma str_replace_Nil: "old \<noteq> [] \<Longrightarrow> str_replace old new [] = []"
  by simp

lemma str_replace_keeps_prefix:
  assumes "prefix new old" and "old \<noteq> []"
  shows "prefix_guard (map f old) (length new) p \<Longrightarrow> prefix p (map f s)
     \<Longrightarrow> prefix p (map f (str_replace old new s))"
proof (induction p arbitrary: s)
  case Nil
  show ?case by (rule Nil_prefix)
next
  case (Cons x p)
  have "s \<noteq> []"
    using Cons.prems(2) by auto
  then obtain c cs where s: "s = c # cs"
    by (auto simp: neq_Nil_conv)
  from Cons.prems(2) have x: "f c = x" and p: "prefix p (map f cs)"
    unfolding s by simp_all
  show ?case
  proof (cases "prefix old s")
    case True
    then have fo: "prefix (map f old) (map f s)"
      by (rule map_mono_prefix)
    from fo Cons.prems(2) have "prefix (map f old) (x # p) \<or> prefix (x # p) (map f old)"
      by (rule prefix_same_cases)
    moreover from Cons.prems(1)
    have "(length (x # p) \<le> length new
       \<or> \<not> (prefix (map f old) (x # p) \<or> prefix (x # p) (map f old)))
       \<and> prefix_guard (map f old) (length new) p"
      by (simp only: prefix_guard.simps)
    ultimately have "length (x # p) \<le> length new"
      by blast
    then have len: "length (x # p) \<le> length (map f new)"
      by (simp only: length_map)
    from assms(1) True have "prefix new s"
      by (rule prefix_order.trans)
    then have fn: "prefix (map f new) (map f s)"
      by (rule map_mono_prefix)
    from Cons.prems(2) fn len have "prefix (x # p) (map f new)"
      by (rule prefix_length_prefix)
    then have "prefix (x # p) (map f new @ map f (str_replace old new (drop (length old) s)))"
      by (rule prefix_prefix)
    then show ?thesis
      by (simp only: str_replace_match [OF assms(2) True] map_append)
  next
    case False
    from Cons.prems(1)
    have "(length (x # p) \<le> length new
       \<or> \<not> (prefix (map f old) (x # p) \<or> prefix (x # p) (map f old)))
       \<and> prefix_guard (map f old) (length new) p"
      by (simp only: prefix_guard.simps)
    then have "prefix_guard (map f old) (length new) p"
      by (rule conjunct2)
    from Cons.IH [OF this p] have "prefix p (map f (str_replace old new cs))" .
    then have "prefix (x # p) (map f (c # str_replace old new cs))"
      by (simp only: list.map x Cons_prefix_Cons simp_thms)
    moreover from False have "str_replace old new s = c # str_replace old new cs"
      unfolding s by (rule str_replace_skip [OF assms(2)])
    ultimately show ?thesis
      by (simp only:)
  qed
qed

lemma suffix_single: "suffix [d] s \<longleftrightarrow> s \<noteq> [] \<and> last s = d"
  by (cases s rule: rev_cases) (auto simp: suffix_def)

lemma str_replace_keeps_last:
  "old \<noteq> [] \<Longrightarrow> last old \<noteq> d \<Longrightarrow> s \<noteq> [] \<Longrightarrow> last s = d
     \<Longrightarrow> str_replace old new s \<noteq> [] \<and> last (str_replace old new s) = d"
proof (induction s rule: length_induct)
  case (1 s)
  from 1(4) obtain c cs where s: "s = c # cs"
    by (auto simp: neq_Nil_conv)
  show ?case
  proof (cases "prefix old s")
    case True
    then obtain r where r: "s = old @ r"
      by (auto simp: prefix_def)
    then have dr: "drop (length old) s = r"
      by simp
    have rne: "r \<noteq> []"
    proof
      assume "r = []"
      with r have "s = old" by simp
      with 1(3) 1(5) show False by simp
    qed
    from rne have "last (old @ r) = last r"
      by simp
    with 1(5) r have lr: "last r = d" by simp
    from r 1(2) have "length r < length s"
      by simp
    with 1(1) 1(2) 1(3) rne lr
    have "str_replace old new r \<noteq> [] \<and> last (str_replace old new r) = d"
      by blast
    then have "new @ str_replace old new r \<noteq> []
        \<and> last (new @ str_replace old new r) = d"
      by simp
    moreover have "str_replace old new s = new @ str_replace old new r"
      using str_replace_match [OF 1(2) True, of new] dr by (simp only:)
    ultimately show ?thesis by simp
  next
    case False
    then have step: "str_replace old new s = c # str_replace old new cs"
      unfolding s by (rule str_replace_skip [OF 1(2)])
    show ?thesis
    proof (cases "cs = []")
      case True
      from 1(5) have "c = d"
        unfolding s True by simp
      moreover have "str_replace old new s = [c]"
        unfolding step True by (simp add: 1(2))
      ultimately show ?thesis by simp
    next
      case False
      from False 1(5) have "last cs = d"
        unfolding s by simp
      moreover have "length cs < length s"
        unfolding s by simp
      ultimately have "str_replace old new cs \<noteq> [] \<and> last (str_replace old new cs) = d"
        using 1(1) 1(2) 1(3) False by blast
      then show ?thesis
        unfolding step by simp
    qed
  qed
qed

lemma str_replace_endswith:
  assumes "old \<noteq> []" and "last old \<noteq> d" and "endswith s [d]"
  shows "endswith (str_replace old new s) [d]"
  using str_replace_keeps_last [OF assms(1) assms(2), of s new] assms(3)
  by (simp add: endswith_def suffix_single)

lemma str_strip_keeps_prefix:
  assumes "p \<noteq> []" and "\<not> isspace (hd p)" and "\<not> isspace (last p)" and "prefix p s"
  shows "prefix p (str_strip s)"
proof -
  from assms(4) obtain r where s: "s = p @ r"
    by (auto simp: prefix_def)
  from assms(1) assms(2) have d1: "dropWhile isspace (p @ r) = p @ r"
    by (cases p) simp_all
  from assms(1) assms(3) have d2: "dropWhile isspace (rev p) = rev p"
    by (cases p rule: rev_cases) simp_all
  have "\<exists>t. dropWhile isspace (rev r @ rev p) = t @ rev p"
  proof (cases "\<forall>x\<in>set (rev r). isspace x")
    case True
    then have "dropWhile isspace (rev r @ rev p) = dropWhile isspace (rev p)"
      by (simp add: dropWhile_append)
    with d2 show ?thesis by simp
  next
    case False
    then obtain x where "x \<in> set (rev r)" "\<not> isspace x" by blast
    then have "dropWhile isspace (rev r @ rev p) = dropWhile isspace (rev r) @ rev p"
      by (rule dropWhile_append1)
    then show ?thesis by blast
  qed
  then obtain t where "dropWhile isspace (rev r @ rev p) = t @ rev p" ..
  then have "str_strip s = p @ rev t"
    unfolding str_strip_def s d1 by simp
  then show ?thesis by simp
qed

lemma add_context_keeps_prefix: "prefix p r \<Longrightarrow> prefix p (add_context chunks r)"
  by (induction chunks arbitrary: r) (simp_all del: set_simps)

section \<open>Refiner: deduplication, lead phrase and period\<close>

lemma dedup_invariant:
  "foldl dedup_step (u, seen) ds = (u', seen') \<Longrightarrow> seen = simple_req_of ` set u
     \<Longrightarrow> distinct (map simple_req_of u)
     \<Longrightarrow> seen' = simple_req_of ` set u' \<and> distinct (map simple_req_of u')"
proof (induction ds arbitrary: u seen)
  case Nil
  then show ?case by auto
next
  case (Cons d ds)
  show ?case
  proof (cases "simple_req_of d \<notin> seen \<and> length (str_split d) > 4")
    case True
    then have step: "dedup_step (u, seen) d = (u @ [d], insert (simple_req_of d) seen)"
      by (simp add: dedup_step_def)
    from Cons.prems(1) have run: "foldl dedup_step (u @ [d], insert (simple_req_of d) seen) ds = (u', seen')"
      by (simp add: step)
    have a: "insert (simple_req_of d) seen = simple_req_of ` set (u @ [d])"
      using Cons.prems(2) by simp
    have b: "distinct (map simple_req_of (u @ [d]))"
      using Cons.prems(2) Cons.prems(3) True by simp
    from Cons.IH [OF run a b] show ?thesis .
  next
    case False
    then have step: "dedup_step (u, seen) d = (u, seen)"
      by (simp add: dedup_step_def)
    from Cons.prems(1) have run: "foldl dedup_step (u, seen) ds = (u', seen')"
      by (simp add: step)
    from Cons.IH [OF run Cons.prems(2) Cons.prems(3)] show ?thesis .
  qed
qed

lemma dedup_extends:
  "foldl dedup_step (u, seen) ds = (u', seen')
     \<Longrightarrow> \<exists>k. u' = u @ k \<and> subseq k ds \<and> (\<forall>d\<in>set k. length (str_split d) > 4)"
proof (induction ds arbitrary: u seen)
  case Nil
  then show ?case by auto
next
  case (Cons d ds)
  show ?case
  proof (cases "simple_req_of d \<notin> seen \<and> length (str_split d) > 4")
    case True
    then have step: "dedup_step (u, seen) d = (u @ [d], insert (simple_req_of d) seen)"
      by (simp add: dedup_step_def)
    from Cons.prems(1) have run: "foldl dedup_step (u @ [d], insert (simple_req_of d) seen) ds = (u', seen')"
      by (simp add: step)
    from Cons.IH [OF run] obtain k where k: "u' = (u @ [d]) @ k" "subseq k ds"
      "\<forall>d\<in>set k. length (str_split d) > 4"
      by blast
    from k True have "u' = u @ (d # k) \<and> subseq (d # k) (d # ds)
        \<and> (\<forall>x\<in>set (d # k). length (str_split x) > 4)"
      by simp
    then show ?thesis by blast
  next
    case False
    then have step: "dedup_step (u, seen) d = (u, seen)"
      by (simp add: dedup_step_def)
    from Cons.prems(1) have run: "foldl dedup_step (u, seen) ds = (u', seen')"
      by (simp add: step)
    from Cons.IH [OF run] obtain k where k: "u' = u @ k" "subseq k ds"
      "\<forall>d\<in>set k. length (str_split d) > 4"
      by blast
    from k have "u' = u @ k \<and> subseq k (d # ds) \<and> (\<forall>x\<in>set k. length (str_split x) > 4)"
      by (simp add: list_emb_Cons)
    then show ?thesis by blast
  qed
qed

lemma dedup_covers:
  "foldl dedup_step (u, seen) ds = (u', seen') \<Longrightarrow> seen = simple_req_of ` set u
     \<Longrightarrow> simple_req_of ` set u'
         = simple_req_of ` set u \<union> simple_req_of ` {d \<in> set ds. length (str_split d) > 4}"
proof (induction ds arbitrary: u seen)
  case Nil
  then show ?case by auto
next
  case (Cons d ds)
  show ?case
  proof (cases "simple_req_of d \<notin> seen \<and> length (str_split d) > 4")
    case True
    then have step: "dedup_step (u, seen) d = (u @ [d], insert (simple_req_of d) seen)"
      by (simp add: dedup_step_def)
    from Cons.prems(1) have run: "foldl dedup_step (u @ [d], insert (simple_req_of d) seen) ds = (u', seen')"
      by (simp add: step)
    have a: "insert (simple_req_of d) seen = simple_req_of ` set (u @ [d])"
      using Cons.prems(2) by simp
    from Cons.IH [OF run a] True show ?thesis
      by auto
  next
    case False
    then have step: "dedup_step (u, seen) d = (u, seen)"
      by (simp add: dedup_step_def)
    from Cons.prems(1) have run: "foldl dedup_step (u, seen) ds = (u', seen')"
      by (simp add: step)
    from Cons.IH [OF run Cons.prems(2)] False Cons.prems(2) show ?thesis
      by auto
  qed
qed

lemma unique_reqs_of_facts:
  "subseq (unique_reqs_of ds) ds
   \<and> distinct (map simple_req_of (unique_reqs_of ds))
   \<and> (\<forall>d\<in>set (unique_reqs_of ds). length (str_split d) > 4)
   \<and> simple_req_of ` set (unique_reqs_of ds)
       = simple_req_of ` {d \<in> set ds. length (str_split d) > 4}"
proof -
  obtain u' seen' where run: "foldl dedup_step ([], {}) ds = (u', seen')"
    by (cases "foldl dedup_step ([], {}) ds")
  then have u: "unique_reqs_of ds = u'"
    by (simp add: unique_reqs_of_def)
  from dedup_invariant [OF run] have "distinct (map simple_req_of u')"
    by simp
  moreover from dedup_extends [OF run] have "subseq u' ds \<and> (\<forall>d\<in>set u'. length (str_split d) > 4)"
    by simp
  moreover from dedup_covers [OF run]
  have "simple_req_of ` set u' = simple_req_of ` {d \<in> set ds. length (str_split d) > 4}"
    by simp
  ultimately show ?thesis
    unfolding u by blast
qed

lemma fix_guards:
  "\<forall>p\<in>set standard_phrases.
     \<forall>(old, new)\<in>set [('' should be able to be able to '', '' should be able to ''),
                        ('' should should '', '' should ''),
                        ('' shall shall '', '' shall '')].
       prefix new old \<and> old \<noteq> [] \<and> last old \<noteq> CHR ''.''
       \<and> prefix_guard (map lower_char old) (length new) p"
  by code_simp

lemma str_replace_keeps_lead:
  assumes "p \<in> set standard_phrases"
    and "(old, new) \<in> set [('' should be able to be able to '', '' should be able to ''),
                        ('' should should '', '' should ''),
                        ('' shall shall '', '' shall '')]"
    and "startswith (str_lower s) p"
  shows "startswith (str_lower (str_replace old new s)) p"
proof -
  from fix_guards assms(1) assms(2)
  have g: "prefix new old \<and> old \<noteq> [] \<and> prefix_guard (map lower_char old) (length new) p"
    by blast
  from g assms(3) show ?thesis
    unfolding startswith_def str_lower_def
    by (intro str_replace_keeps_prefix) blast+
qed

lemma fix_common_issues_keeps_lead:
  assumes "p \<in> set standard_phrases" and "startswith (str_lower s) p"
  shows "startswith (str_lower (fix_common_issues s)) p"
  unfolding fix_common_issues_def
  by (intro str_replace_keeps_lead assms) simp_all

lemma fix_common_issues_keeps_period:
  assumes "endswith s ''.''"
  shows "endswith (fix_common_issues s) ''.''"
  unfolding fix_common_issues_def
  by (intro str_replace_endswith assms) simp_all

lemma add_lead_has_lead: "\<exists>p\<in>set standard_phrases. startswith (str_lower (add_lead req)) p"
proof (cases "list_ex (\<lambda>p. startswith (str_lower req) p) standard_phrases")
  case True
  then show ?thesis by (simp add: add_lead_def list_ex_iff)
next
  case False
  have "str_lower ''The system shall '' = ''the system shall ''"
    by code_simp
  then have "str_lower (''The system shall '' @ req) = ''the system shall '' @ str_lower req"
    by (simp only: str_lower_append)
  then have "startswith (str_lower (''The system shall '' @ req)) ''the system shall''"
    by (simp add: startswith_def)
  moreover have "''the system shall'' \<in> set standard_phrases"
    by (simp add: standard_phrases_def)
  ultimately show ?thesis
    using False unfolding add_lead_def by (simp only: if_True simp_thms) blast
qed

lemma add_period_keeps_lead:
  "startswith (str_lower s) p \<Longrightarrow> startswith (str_lower (add_period s)) p"
  by (simp add: add_period_def startswith_def str_lower_append)

lemma add_period_endswith: "endswith (add_period s) ''.''"
  by (simp add: add_period_def endswith_def)

lemma refine_shape:
  "endswith (refine req) ''.''
   \<and> (\<exists>p\<in>set standard_phrases. startswith (str_lower (refine req)) p)"
proof -
  from add_lead_has_lead [of req] obtain p where p: "p \<in> set standard_phrases"
    "startswith (str_lower (add_lead req)) p"
    by blast
  from p(2) have "startswith (str_lower (add_period (add_lead req))) p"
    by (rule add_period_keeps_lead)
  with p(1) have "startswith (str_lower (refine req)) p"
    unfolding refine_def by (rule fix_common_issues_keeps_lead)
  moreover have "endswith (refine req) ''.''"
    unfolding refine_def by (rule fix_common_issues_keeps_period) (rule add_period_endswith)
  ultimately show ?thesis using p(1) by blast
qed

lemma split_from_nonempty: "w \<noteq> [] \<Longrightarrow> split_from w t \<noteq> []"
  by (induction t arbitrary: w) simp_all

lemma split_from_append_mono: "length (split_from w s) \<le> length (split_from w (s @ t))"
proof (induction s arbitrary: w)
  case Nil
  show ?case
  proof (cases "w = []")
    case True
    then show ?thesis by simp
  next
    case False
    then have "split_from w t \<noteq> []" by (rule split_from_nonempty)
    then have "1 \<le> length (split_from w t)"
      by (cases "split_from w t") simp_all
    with False show ?thesis by simp
  qed
next
  case (Cons c s)
  then show ?case by simp
qed

lemma words_add_period: "length (str_split req) \<le> length (str_split (add_period req))"
  by (simp add: add_period_def str_split_def split_from_append_mono)

lemma split_lead:
  "split_from [] (''The system shall '' @ req) = ''The'' # ''system'' # ''shall'' # split_from [] req"
  by (simp add: isspace_def ord_def)

lemma words_add_lead: "length (str_split req) \<le> length (str_split (add_lead req))"
  by (simp add: add_lead_def str_split_def split_lead del: append.simps)

text \<open>
  Claim C5, as the code has it. Every element of the refiner's output ends with a period,
  begins in lowercase with one of the three approved lead phrases, and is the result of
  the literal fix-ups on a text of at least 5 whitespace-delimited words, made from a draft
  of at least 5 words. The count of 5 holds before the fix-ups; they remove words.
\<close>

theorem refine_requirements_shape:
  "\<forall>r\<in>set (refine_requirements formulated_reqs).
     endswith r ''.''
     \<and> (\<exists>p\<in>set [''the system shall'', ''the customer should'', ''the administrator should''].
           startswith (str_lower r) p)
     \<and> (\<exists>req\<in>set formulated_reqs.
           5 \<le> length (str_split req)
           \<and> 5 \<le> length (str_split (add_period (add_lead req)))
           \<and> r = fix_common_issues (add_period (add_lead req)))"
proof
  fix r
  assume "r \<in> set (refine_requirements formulated_reqs)"
  then obtain req where req: "req \<in> set (unique_reqs_of formulated_reqs)" and r: "r = refine req"
    by (auto simp: refine_requirements_def)
  from unique_reqs_of_facts [of formulated_reqs] req
  have w: "4 < length (str_split req)"
    by blast
  from unique_reqs_of_facts [of formulated_reqs]
  have "subseq (unique_reqs_of formulated_reqs) formulated_reqs"
    by blast
  from list_emb_set [OF this req] have m: "req \<in> set formulated_reqs"
    by blast
  have "length (str_split req) \<le> length (str_split (add_period (add_lead req)))"
    using words_add_lead [of req] words_add_period [of "add_lead req"] by simp
  with w have w2: "5 \<le> length (str_split (add_period (add_lead req)))"
    by simp
  from refine_shape [of req]
  have "endswith r ''.''"
    and "\<exists>p\<in>set [''the system shall'', ''the customer should'', ''the administrator should''].
           startswith (str_lower r) p"
    unfolding r standard_phrases_def by blast+
  moreover from w have w5: "5 \<le> length (str_split req)"
    by simp
  from w5 w2 m r
  have "\<exists>req\<in>set formulated_reqs.
           5 \<le> length (str_split req)
           \<and> 5 \<le> length (str_split (add_period (add_lead req)))
           \<and> r = fix_common_issues (add_period (add_lead req))"
    unfolding refine_def by blast
  ultimately show "endswith r ''.''
     \<and> (\<exists>p\<in>set [''the system shall'', ''the customer should'', ''the administrator should''].
           startswith (str_lower r) p)
     \<and> (\<exists>req\<in>set formulated_reqs.
           5 \<le> length (str_split req)
           \<and> 5 \<le> length (str_split (add_period (add_lead req)))
           \<and> r = fix_common_issues (add_period (add_lead req)))"
    by blast
qed

theorem refine_requirements_shape_witness:
  "endswith ''The system shall The customer shall book a washing machine.'' ''.''
   \<and> (\<exists>p\<in>set [''the system shall'', ''the customer should'', ''the administrator should''].
         startswith (str_lower ''The system shall The customer shall book a washing machine.'') p)"
proof -
  have run: "refine_requirements [''The customer shall book a washing machine'']
      = [''The system shall The customer shall book a washing machine.'']"
    by code_simp
  have "''The system shall The customer shall book a washing machine.''
      \<in> set (refine_requirements [''The customer shall book a washing machine''])"
    unfolding run by simp
  with refine_requirements_shape [of "[''The customer shall book a washing machine'']"]
  show ?thesis
    by blast
qed

text \<open>
  A draft of five words that starts with an approved phrase loses a word to the fix-up of
  a doubled \<open>should\<close>: the refined text has four words.
\<close>

theorem refine_requirements_words_counterexample:
  "refine_requirements [''the customer should should go''] = [''the customer should go.'']
   \<and> length (str_split ''the customer should should go'') = 5
   \<and> length (str_split ''the customer should go.'') = 4"
  by code_simp

text \<open>
  Claim C4, as the code has it. The refiner's output is the elementwise refinement of the
  drafts it keeps; the kept drafts are a subsequence of the input, each has more than 4
  words, no two of them have the same comparison key, and every input draft of more than
  4 words has its key among theirs. The keys of the refined texts are not compared.
\<close>

theorem refine_requirements_distinct_keys:
  "\<exists>kept. refine_requirements formulated_reqs = map refine kept
     \<and> subseq kept formulated_reqs
     \<and> distinct (map simple_req_of kept)
     \<and> (\<forall>req\<in>set kept. 4 < length (str_split req))
     \<and> (\<forall>req\<in>set formulated_reqs. 4 < length (str_split req)
           \<longrightarrow> simple_req_of req \<in> simple_req_of ` set kept)"
proof -
  let ?kept = "unique_reqs_of formulated_reqs"
  from unique_reqs_of_facts [of formulated_reqs]
  have "subseq ?kept formulated_reqs" and "distinct (map simple_req_of ?kept)"
    and "\<forall>req\<in>set ?kept. 4 < length (str_split req)"
    and "\<forall>req\<in>set formulated_reqs. 4 < length (str_split req)
           \<longrightarrow> simple_req_of req \<in> simple_req_of ` set ?kept"
    by blast+
  moreover have "refine_requirements formulated_reqs = map refine ?kept"
    by (simp add: refine_requirements_def)
  ultimately show ?thesis by blast
qed

theorem refine_requirements_distinct_keys_witness:
  "\<exists>kept. refine_requirements [''The customer shall pay the bill'', ''too short'',
                                ''The customer shall pay the bill!'']
             = map refine kept
     \<and> distinct (map simple_req_of kept)
     \<and> simple_req_of ''The customer shall pay the bill!'' \<in> simple_req_of ` set kept"
proof -
  have w: "4 < length (str_split ''The customer shall pay the bill!'')"
    by code_simp
  from refine_requirements_distinct_keys
         [of "[''The customer shall pay the bill'', ''too short'',
               ''The customer shall pay the bill!'']"]
  obtain kept where k: "refine_requirements [''The customer shall pay the bill'', ''too short'',
                                ''The customer shall pay the bill!''] = map refine kept"
    "distinct (map simple_req_of kept)"
    "\<forall>req\<in>set [''The customer shall pay the bill'', ''too short'',
                 ''The customer shall pay the bill!'']. 4 < length (str_split req)
           \<longrightarrow> simple_req_of req \<in> simple_req_of ` set kept"
    by blast
  from k(3) w have "simple_req_of ''The customer shall pay the bill!'' \<in> simple_req_of ` set kept"
    by simp
  with k(1) k(2) show ?thesis by blast
qed

text \<open>
  Two drafts with different keys whose refined texts are the same string: the first gets
  the lead phrase that the second already has.
\<close>

theorem refine_requirements_keys_counterexample:
  "refine_requirements [''The customer shall pay the bill'',
                        ''The system shall The customer shall pay the bill'']
     = [''The system shall The customer shall pay the bill.'',
        ''The system shall The customer shall pay the bill.'']
   \<and> simple_req_of (refine_requirements [''The customer shall pay the bill'',
                        ''The system shall The customer shall pay the bill''] ! 0)
     = simple_req_of (refine_requirements [''The customer shall pay the bill'',
                        ''The system shall The customer shall pay the bill''] ! 1)"
  by code_simp

text \<open>
  Claim C2. The formulator writes \<open>The customer shall\<close> and
  \<open>The administrator shall\<close>; the refiner's list of approved phrases has
  \<open>the customer should\<close> and \<open>the administrator should\<close>. Such drafts are
  therefore not recognised: the refiner puts \<open>The system shall\<close> in front of them.
\<close>

theorem refine_requirements_shall_lead:
  "refine_requirements [''The customer shall book a washing machine'',
                        ''The administrator shall monitor the payment system'']
     = [''The system shall The customer shall book a washing machine.'',
        ''The system shall The administrator shall monitor the payment system.'']"
  by code_simp

section \<open>Formulator: lead phrase and template\<close>

lemma template_of_lead:
  "\<exists>rest. template_of req = primary_actor_of (actors_of (doc req)) @ '' shall'' @ rest"
  by (simp add: template_of_def Let_def split: list.splits)

lemma primary_actor_of_cases:
  "primary_actor_of actors = ''The customer'' \<or> primary_actor_of actors = ''The administrator''
     \<or> primary_actor_of actors = ''The system''"
  by (simp add: primary_actor_of_def)

lemma lead_guards:
  "\<forall>p\<in>set [''The customer shall'', ''The administrator shall'', ''The system shall''].
     prefix_guard (map (\<lambda>c. c) ''  '') (length '' '') p
     \<and> p \<noteq> [] \<and> \<not> isspace (hd p) \<and> \<not> isspace (last p)"
  by code_simp

lemma clean_up_keeps_lead:
  assumes "p \<in> set [''The customer shall'', ''The administrator shall'', ''The system shall'']"
    and "prefix p r"
  shows "prefix p (clean_up r)"
proof -
  from lead_guards assms(1)
  have g: "prefix_guard (map (\<lambda>c. c) ''  '') (length '' '') p"
    and h: "p \<noteq> []" "\<not> isspace (hd p)" "\<not> isspace (last p)"
    by blast+
  have "prefix '' '' ''  ''" and "''  '' \<noteq> []"
    by simp_all
  from str_replace_keeps_prefix [OF this g, of r] assms(2)
  have "prefix p (str_replace ''  '' '' '' r)"
    by simp
  with h show ?thesis
    unfolding clean_up_def by (rule str_strip_keeps_prefix)
qed

lemma formulate_lead:
  "prefix (primary_actor_of (actors_of (doc req)) @ '' shall'') (formulate req)"
proof -
  let ?p = "primary_actor_of (actors_of (doc req)) @ '' shall''"
  from template_of_lead [of req] have t: "prefix ?p (template_of req)"
    by (auto simp: prefix_def)
  have "?p \<in> set [''The customer shall'', ''The administrator shall'', ''The system shall'']"
    using primary_actor_of_cases [of "actors_of (doc req)"] by auto
  from clean_up_keeps_lead [OF this t] show ?thesis
    unfolding formulate_def by (rule add_context_keeps_prefix)
qed

lemma str_lower_Nil: "str_lower [] = []"
  by (simp add: str_lower_def)

lemma primary_actor_of_spec:
  "primary_actor_of actors =
     (if \<exists>actor\<in>set actors. str_lower actor \<in> {''customer'', ''client'', ''user''}
      then ''The customer''
      else if \<exists>actor\<in>set actors. str_lower actor \<in> {''administrator'', ''admin'', ''owner''}
      then ''The administrator'' else ''The system'')"
proof -
  have "list_ex (\<lambda>actor. str_lower actor \<in> set ks) (filter (\<lambda>actor. actor \<noteq> []) actors)
      \<longleftrightarrow> (\<exists>actor\<in>set actors. str_lower actor \<in> set ks)"
    if "[] \<notin> set ks" for ks :: "string list"
    using that by (auto simp: list_ex_iff str_lower_Nil)
  from this [of "[''customer'', ''client'', ''user'']"]
       this [of "[''administrator'', ''admin'', ''owner'']"]
  show ?thesis
    unfolding primary_actor_of_def by simp
qed

text \<open>
  Claim C8. The formulator returns one string per candidate. Each is non-empty and starts
  with the primary actor followed by \<open>shall\<close>, where the primary actor is
  \<open>The customer\<close> when some \<open>nsubj\<close> noun chunk lowercases to customer, client or
  user, otherwise \<open>The administrator\<close> when some lowercases to administrator, admin
  or owner, otherwise \<open>The system\<close>; so each starts with one of the three.
\<close>

theorem formulate_requirements_lead:
  "length (formulate_requirements potential_reqs) = length potential_reqs
   \<and> (\<forall>i<length potential_reqs.
        (let actors = map chunk_text
                        (filter (\<lambda>ch. tok_dep (chunk_root ch) = ''nsubj'')
                           (noun_chunks (doc (potential_reqs ! i))));
             primary_actor =
               (if \<exists>actor\<in>set actors. str_lower actor \<in> {''customer'', ''client'', ''user''}
                then ''The customer''
                else if \<exists>actor\<in>set actors.
                          str_lower actor \<in> {''administrator'', ''admin'', ''owner''}
                then ''The administrator'' else ''The system'');
             r = formulate_requirements potential_reqs ! i
         in r \<noteq> []
            \<and> startswith r primary_actor
            \<and> startswith r (primary_actor @ '' shall'')
            \<and> (startswith r ''The customer'' \<or> startswith r ''The administrator''
                 \<or> startswith r ''The system'')))"
proof -
  have "r \<noteq> [] \<and> startswith r pa \<and> startswith r (pa @ '' shall'')
        \<and> (startswith r ''The customer'' \<or> startswith r ''The administrator''
             \<or> startswith r ''The system'')"
    if r: "r = formulate req" and pa: "pa = primary_actor_of (actors_of (doc req))"
    for r req pa
  proof -
    from formulate_lead [of req] have l: "prefix (pa @ '' shall'') r"
      unfolding r pa .
    then have l2: "prefix pa r"
      by (rule append_prefixD)
    from primary_actor_of_cases [of "actors_of (doc req)"]
    have c: "pa = ''The customer'' \<or> pa = ''The administrator'' \<or> pa = ''The system''"
      unfolding pa .
    from c l2 have "r \<noteq> []"
      by auto
    moreover from c l2 have "prefix ''The customer'' r \<or> prefix ''The administrator'' r
        \<or> prefix ''The system'' r"
      by blast
    ultimately show ?thesis
      using l l2 unfolding startswith_def by blast
  qed
  then show ?thesis
    unfolding Let_def primary_actor_of_spec [symmetric] actors_of_def [symmetric]
    by (simp add: formulate_requirements_def)
qed

theorem formulate_requirements_lead_witness:
  "startswith (formulate_requirements [sample_candidate_d, sample_candidate_c] ! 0)
     ''The customer shall''
   \<and> startswith (formulate_requirements [sample_candidate_d, sample_candidate_c] ! Suc 0)
     ''The system shall''"
proof -
  have d: "(if \<exists>actor\<in>set (map chunk_text
                        (filter (\<lambda>ch. tok_dep (chunk_root ch) = ''nsubj'')
                           (noun_chunks (doc sample_candidate_d)))).
                str_lower actor \<in> {''customer'', ''client'', ''user''}
            then ''The customer''
            else if \<exists>actor\<in>set (map chunk_text
                        (filter (\<lambda>ch. tok_dep (chunk_root ch) = ''nsubj'')
                           (noun_chunks (doc sample_candidate_d)))).
                      str_lower actor \<in> {''administrator'', ''admin'', ''owner''}
            then ''The administrator'' else ''The system'') = ''The customer''"
    by code_simp
  have c: "(if \<exists>actor\<in>set (map chunk_text
                        (filter (\<lambda>ch. tok_dep (chunk_root ch) = ''nsubj'')
                           (noun_chunks (doc sample_candidate_c)))).
                str_lower actor \<in> {''customer'', ''client'', ''user''}
            then ''The customer''
            else if \<exists>actor\<in>set (map chunk_text
                        (filter (\<lambda>ch. tok_dep (chunk_root ch) = ''nsubj'')
                           (noun_chunks (doc sample_candidate_c)))).
                      str_lower actor \<in> {''administrator'', ''admin'', ''owner''}
            then ''The administrator'' else ''The system'') = ''The system''"
    by code_simp
  have i0: "0 < length [sample_candidate_d, sample_candidate_c]"
    and i1: "Suc 0 < length [sample_candidate_d, sample_candidate_c]"
    by simp_all
  note t = formulate_requirements_lead [of "[sample_candidate_d, sample_candidate_c]",
             THEN conjunct2, rule_format]
  from t [OF i0] have "startswith (formulate_requirements [sample_candidate_d, sample_candidate_c] ! 0)
     ''The customer shall''"
    unfolding Let_def nth_Cons_0 d by simp
  moreover from t [OF i1]
  have "startswith (formulate_requirements [sample_candidate_d, sample_candidate_c] ! Suc 0)
     ''The system shall''"
    unfolding Let_def nth_Cons_Suc nth_Cons_0 c by simp
  ultimately show ?thesis by blast
qed

lemma template_of_spec:
  "template_of req =
     (let actors = actors_of (doc req); objects = objects_of (doc req);
          action = (case action_verbs req of a # _ \<Rightarrow> a
                    | [] \<Rightarrow> (case verbs req of v # _ \<Rightarrow> v | [] \<Rightarrow> ''support''))
      in if actors \<noteq> [] \<and> objects \<noteq> [] \<and> (action_verbs req \<noteq> [] \<or> verbs req \<noteq> [])
         then primary_actor_of actors @ '' shall '' @ action @ '' '' @ hd objects
         else primary_actor_of actors @ '' shall '' @ action @ '' '' @ str_lower (sentence req))"
  by (auto simp: template_of_def Let_def action_of_def actions_of_def split: list.splits)

lemma objects_of_spec:
  "objects_of d =
     map chunk_text
       (filter (\<lambda>ch. tok_dep (chunk_root ch) = ''dobj'' \<or> tok_dep (chunk_root ch) = ''pobj'')
          (noun_chunks d))"
  by (simp add: objects_of_def)

text \<open>
  Claim C3, as the code has it. The action is the first action verb, else the first verb,
  else \<open>support\<close>. The draft is the short template (actor, \<open>shall\<close>, action,
  first object) when there is an actor, an object and at least one verb; in every other
  case, the one with no verb at all included, it is the fallback template on the
  lowercased sentence. The string returned is the draft after the clean-up and the
  context loop.
\<close>

theorem formulate_requirements_template:
  "\<forall>i<length potential_reqs.
     (let req = potential_reqs ! i;
          chunks = noun_chunks (doc req);
          actors = map chunk_text (filter (\<lambda>ch. tok_dep (chunk_root ch) = ''nsubj'') chunks);
          objects = map chunk_text
                      (filter (\<lambda>ch. tok_dep (chunk_root ch) = ''dobj''
                                    \<or> tok_dep (chunk_root ch) = ''pobj'') chunks);
          action = (case action_verbs req of a # _ \<Rightarrow> a
                    | [] \<Rightarrow> (case verbs req of v # _ \<Rightarrow> v | [] \<Rightarrow> ''support''));
          draft = (if actors \<noteq> [] \<and> objects \<noteq> []
                      \<and> (action_verbs req \<noteq> [] \<or> verbs req \<noteq> [])
                   then primary_actor_of actors @ '' shall '' @ action @ '' '' @ hd objects
                   else primary_actor_of actors @ '' shall '' @ action @ '' ''
                        @ str_lower (sentence req))
      in formulate_requirements potential_reqs ! i = add_context chunks (clean_up draft))"
proof -
  have "formulate req = add_context (noun_chunks (doc req)) (clean_up (template_of req))" for req
    by (simp add: formulate_def)
  then show ?thesis
    unfolding template_of_spec Let_def objects_of_spec actors_of_def
    by (simp add: formulate_requirements_def)
qed

theorem formulate_requirements_template_witness:
  "formulate_requirements [sample_candidate_d] ! 0 = ''The customer shall book a machine for the app''"
proof -
  have v: "(let req = [sample_candidate_d] ! 0;
          chunks = noun_chunks (doc req);
          actors = map chunk_text (filter (\<lambda>ch. tok_dep (chunk_root ch) = ''nsubj'') chunks);
          objects = map chunk_text
                      (filter (\<lambda>ch. tok_dep (chunk_root ch) = ''dobj''
                                    \<or> tok_dep (chunk_root ch) = ''pobj'') chunks);
          action = (case action_verbs req of a # _ \<Rightarrow> a
                    | [] \<Rightarrow> (case verbs req of v # _ \<Rightarrow> v | [] \<Rightarrow> ''support''));
          draft = (if actors \<noteq> [] \<and> objects \<noteq> []
                      \<and> (action_verbs req \<noteq> [] \<or> verbs req \<noteq> [])
                   then primary_actor_of actors @ '' shall '' @ action @ '' '' @ hd objects
                   else primary_actor_of actors @ '' shall '' @ action @ '' ''
                        @ str_lower (sentence req))
      in add_context chunks (clean_up draft)) = ''The customer shall book a machine for the app''"
    by code_simp
  have i0: "0 < length [sample_candidate_d]"
    by simp
  from formulate_requirements_template [of "[sample_candidate_d]", rule_format, OF i0] v
  show ?thesis
    by (simp only: Let_def)
qed

text \<open>
  A candidate that passes the scorer with an actor and an object but no verb: the
  formulator takes the fallback template, not the short one with \<open>support\<close>.
\<close>

theorem formulate_requirements_template_counterexample:
  "identify_potential_requirements
     [features_of ''The machine is a washer for the customer today'' sample_doc_c]
     = [sample_candidate_c]
   \<and> actors_of (doc sample_candidate_c) = [''The machine'']
   \<and> objects_of (doc sample_candidate_c) = [''the customer'']
   \<and> action_of sample_candidate_c = ''support''
   \<and> formulate_requirements [sample_candidate_c]
       = [''The system shall support the machine is a washer for the customer today'']
   \<and> formulate_requirements [sample_candidate_c] \<noteq> [''The system shall support the customer'']"
  by code_simp

end
